theory Spec2Isabelle
  imports Main "HOL-Library.AList" "HOL-Library.Sublist"
begin

section \<open>gpustat-web: host status store, supervisor and renderer\<close>

text \<open>
  A shallow embedding of \<^verbatim>\<open>gpustat_web/app.py\<close>. A Python \<^verbatim>\<open>str\<close> is a
  sequence of code points; it is modelled as a \<^typ>\<open>string\<close> whose characters are
  the code points U+0000 to U+00FF, one \<^typ>\<open>char\<close> for one code point (not a byte of
  an encoding). The character classes of \<^verbatim>\<open>str.strip\<close>, \<^verbatim>\<open>str.lower\<close> and of the
  regular expressions (\<^verbatim>\<open>\\w\<close>, \<^verbatim>\<open>\\d\<close>) are Python's Unicode classes on that
  range. The third-party functions the module calls (\<^verbatim>\<open>termcolor.colored\<close>,
  \<^verbatim>\<open>Ansi2HTMLConverter.convert\<close>) are parameters of the functions that call them.
\<close>

subsection \<open>Python string primitives\<close>

definition code :: "char \<Rightarrow> nat" where
  "code c = of_char c"

text \<open>
  \<^verbatim>\<open>str.isspace\<close> on one character: TAB, LF, VT, FF, CR, FS, GS, RS, US, space,
  NEL (U+0085) and the no-break space (U+00A0).
\<close>

definition isspace :: "char \<Rightarrow> bool" where
  "isspace c = ((9 \<le> code c \<and> code c \<le> 13) \<or> (28 \<le> code c \<and> code c \<le> 32)
                \<or> code c = 133 \<or> code c = 160)"

text \<open>\<^verbatim>\<open>s.strip()\<close>: whitespace removed at both ends.\<close>

definition strip :: "string \<Rightarrow> string" where
  "strip s = rev (dropWhile isspace (rev (dropWhile isspace s)))"

text \<open>\<^verbatim>\<open>s.split(sep)\<close> for a one-character separator: never an empty list.\<close>

fun split :: "char \<Rightarrow> string \<Rightarrow> string list" where
  "split sep [] = [[]]"
| "split sep (c # cs) =
     (if c = sep then [] # split sep cs
      else (case split sep cs of
              [] \<Rightarrow> [[c]]
            | w # ws \<Rightarrow> (c # w) # ws))"

text \<open>
  \<^verbatim>\<open>s.lower()\<close>: the capital letters are A to Z, U+00C0 to U+00D6 and U+00D8 to
  U+00DE, each 32 below its small letter.
\<close>

definition lower_char :: "char \<Rightarrow> char" where
  "lower_char c =
     (if (65 \<le> code c \<and> code c \<le> 90) \<or> (192 \<le> code c \<and> code c \<le> 214)
         \<or> (216 \<le> code c \<and> code c \<le> 222)
      then char_of (code c + 32) else c)"

definition lower :: "string \<Rightarrow> string" where
  "lower s = map lower_char s"

text \<open>\<^verbatim>\<open>str(n)\<close> for an integer, as the f-strings format it.\<close>

function str_nat :: "nat \<Rightarrow> string" where
  "str_nat n = (if n < 10 then [char_of (48 + n)] else str_nat (n div 10) @ [char_of (48 + n mod 10)])"
  by pat_completeness auto
termination
  by (relation "measure id") auto

definition str_int :: "int \<Rightarrow> string" where
  "str_int i = (if i < 0 then CHR ''-'' # str_nat (nat (- i)) else str_nat (nat i))"

subsection \<open>The context object and its store\<close>

text \<open>
  \<^verbatim>\<open>Context.host_status\<close> is an \<^verbatim>\<open>OrderedDict\<close>: an association list in
  insertion order. \<^verbatim>\<open>d[k] = v\<close> replaces the value in place when \<open>k\<close> is
  present and appends \<open>(k, v)\<close> otherwise, which is \<^const>\<open>AList.update\<close>.
  \<^verbatim>\<open>Context.interval\<close> (seconds) is written by \<^verbatim>\<open>main\<close> and read by the index
  page only; no function below touches it.
\<close>

type_synonym store = "(string \<times> string) list"

record Context =
  host_status :: store
  interval :: int

definition setitem :: "store \<Rightarrow> string \<Rightarrow> string \<Rightarrow> store" where
  "setitem d k v = AList.update k v d"

definition Context_init :: Context where
  "Context_init = \<lparr>host_status = [], interval = 5\<rparr>"

text \<open>
  \<^verbatim>\<open>host_set_message\<close>; \<open>colored\<close> is \<^verbatim>\<open>termcolor.colored(text, color)\<close>.
\<close>

definition host_set_message ::
  "(string \<Rightarrow> string \<Rightarrow> string) \<Rightarrow> Context \<Rightarrow> string \<Rightarrow> string \<Rightarrow> Context" where
  "host_set_message colored ctx hostname msg =
     ctx\<lparr>host_status :=
           setitem (host_status ctx) hostname
             (colored (''('' @ hostname @ '') '') ''white'' @ msg @ [CHR 0x0A])\<rparr>"

subsection \<open>The escape-sequence pattern\<close>

text \<open>
  \<^verbatim>\<open>RE_ANSI = \\x1B(?:[@-Z\\\\-_]|\\[[0-?]*[ -/]*[@-~])\<close>. The three classes after
  \<^verbatim>\<open>[\<close> are pairwise disjoint, so the greedy runs are the only way to match and no
  backtracking is involved. \<^term>\<open>RE_ANSI_match s\<close> is the rest of \<open>s\<close> after a match
  at its first character.
\<close>

definition is_Fe :: "char \<Rightarrow> bool" where
  "is_Fe c = ((64 \<le> code c \<and> code c \<le> 90) \<or> (92 \<le> code c \<and> code c \<le> 95))"

definition is_param :: "char \<Rightarrow> bool" where
  "is_param c = (48 \<le> code c \<and> code c \<le> 63)"

definition is_interm :: "char \<Rightarrow> bool" where
  "is_interm c = (32 \<le> code c \<and> code c \<le> 47)"

definition is_final :: "char \<Rightarrow> bool" where
  "is_final c = (64 \<le> code c \<and> code c \<le> 126)"

fun RE_ANSI_match :: "string \<Rightarrow> string option" where
  "RE_ANSI_match (e # c # cs) =
     (if code e \<noteq> 27 then None
      else if is_Fe c then Some cs
      else if c = CHR ''['' then
        (case dropWhile is_interm (dropWhile is_param cs) of
           [] \<Rightarrow> None
         | f # rest \<Rightarrow> if is_final f then Some rest else None)
      else None)"
| "RE_ANSI_match _ = None"

lemma RE_ANSI_match_shorter: "RE_ANSI_match s = Some r \<Longrightarrow> length r < length s"
proof (induction s rule: RE_ANSI_match.induct)
  case (1 e c cs)
  have d: "length (dropWhile is_interm (dropWhile is_param cs)) \<le> length cs"
    by (meson length_dropWhile_le order_trans)
  from 1 show ?case
    using d by (auto split: if_splits list.splits)
qed simp_all

text \<open>\<^verbatim>\<open>RE_ANSI.sub('', s)\<close>: every match, scanning left to right, is deleted.\<close>

function RE_ANSI_sub :: "string \<Rightarrow> string" where
  "RE_ANSI_sub [] = []"
| "RE_ANSI_sub (c # cs) =
     (case RE_ANSI_match (c # cs) of
        Some rest \<Rightarrow> RE_ANSI_sub rest
      | None \<Rightarrow> c # RE_ANSI_sub cs)"
  by pat_completeness auto
termination
  by (relation "measure length") (auto dest: RE_ANSI_match_shorter)

subsection \<open>The renderer\<close>

datatype error = ValueError string

text \<open>The loop of \<^verbatim>\<open>render_gpustat_body\<close> over \<^verbatim>\<open>host_status.items()\<close>.\<close>

fun render_loop :: "string \<Rightarrow> store \<Rightarrow> string list option \<Rightarrow> string" where
  "render_loop body [] nodes = body"
| "render_loop body ((host, status) # items) nodes =
     (if status = [] then render_loop body items nodes
      else if nodes \<noteq> None \<and> host \<notin> set (the nodes) then render_loop body items nodes
      else render_loop (body @ status) items nodes)"

definition render_gpustat_body ::
  "(string \<Rightarrow> bool \<Rightarrow> string) \<Rightarrow> string \<Rightarrow> bool \<Rightarrow> string list option \<Rightarrow> Context
     \<Rightarrow> (error + string) \<times> Context" where
  "render_gpustat_body convert mode full_html nodes ctx =
     (let body = render_loop [] (host_status ctx) nodes
      in (if mode = ''html'' then Inr (convert body full_html)
          else if mode = ''ansi'' then Inr body
          else if mode = ''plain'' then Inr (RE_ANSI_sub body)
          else Inl (ValueError mode),
          ctx))"

subsection \<open>Query-string lists and the HTTP and websocket handlers\<close>

text \<open>\<^verbatim>\<open>_parse_querystring_list\<close>: \<^verbatim>\<open>value.strip().split(',') if value else None\<close>.\<close>

definition parse_querystring_list :: "string option \<Rightarrow> string list option" where
  "parse_querystring_list value =
     (case value of
        None \<Rightarrow> None
      | Some v \<Rightarrow> if v = [] then None else Some (split CHR '','' (strip v)))"

text \<open>
  The handler made by \<^verbatim>\<open>make_static_handler(content_type)\<close>; \<open>query\<close> is
  \<^verbatim>\<open>request.query\<close>, and the result is the response body or the error raised.
\<close>

definition make_static_handler ::
  "(string \<Rightarrow> bool \<Rightarrow> string) \<Rightarrow> string \<Rightarrow> (string \<rightharpoonup> string) \<Rightarrow> Context
     \<Rightarrow> (error + string) \<times> Context" where
  "make_static_handler convert content_type query ctx =
     (let full = (lower (case query ''full'' of None \<Rightarrow> ''1'' | Some v \<Rightarrow> v)
                    \<in> set [''yes'', ''true'', ''1'']);
          nodes = parse_querystring_list (query ''nodes'')
      in render_gpustat_body convert content_type full nodes ctx)"

text \<open>
  \<^verbatim>\<open>_handle_websocketmessage\<close> after \<^verbatim>\<open>json.loads\<close> succeeded: \<open>nodes_value\<close> is
  \<^verbatim>\<open>payload.get('nodes')\<close>, and the result is the message sent back.
\<close>

definition handle_websocketmessage ::
  "(string \<Rightarrow> bool \<Rightarrow> string) \<Rightarrow> string option \<Rightarrow> Context \<Rightarrow> (error + string) \<times> Context" where
  "handle_websocketmessage convert nodes_value ctx =
     render_gpustat_body convert ''html'' False (parse_querystring_list nodes_value) ctx"

subsection \<open>Host tokens\<close>

text \<open>
  \<^verbatim>\<open>re.match(r'(?:(?P<user>[\\w-]+)@)?(?P<host>[^:]+)(?::(?P<port>\\d+))?', netloc)\<close>,
  anchored at the start only. The user group can match only as the longest run of
  \<^verbatim>\<open>[\\w-]\<close> followed by \<^verbatim>\<open>@\<close>; when the host group fails after it, the
  matcher backtracks and tries the host group at the start of the token. The host
  group is the longest run of characters other than \<^verbatim>\<open>:\<close>, and the port group,
  being optional, never makes it shorter.
\<close>

text \<open>\<^verbatim>\<open>\\d\<close>: the decimal digits, which below U+0100 are 0 to 9.\<close>

definition is_digit :: "char \<Rightarrow> bool" where
  "is_digit c = (48 \<le> code c \<and> code c \<le> 57)"

text \<open>
  \<^verbatim>\<open>\\w\<close>: the underscore and the alphanumeric characters, which below U+0100 are
  the digits, A to Z, a to z, U+00AA, U+00B2, U+00B3, U+00B5, U+00B9, U+00BA, U+00BC to
  U+00BE, U+00C0 to U+00D6, U+00D8 to U+00F6 and U+00F8 to U+00FF.
\<close>

definition is_alnum_underscore :: "char \<Rightarrow> bool" where
  "is_alnum_underscore c =
     (is_digit c \<or> (65 \<le> code c \<and> code c \<le> 90) \<or> code c = 95
      \<or> (97 \<le> code c \<and> code c \<le> 122)
      \<or> code c = 170 \<or> code c = 178 \<or> code c = 179 \<or> code c = 181
      \<or> code c = 185 \<or> code c = 186 \<or> (188 \<le> code c \<and> code c \<le> 190)
      \<or> (192 \<le> code c \<and> code c \<le> 214) \<or> (216 \<le> code c \<and> code c \<le> 246)
      \<or> (248 \<le> code c \<and> code c \<le> 255))"

text \<open>The class \<^verbatim>\<open>[\\w-]\<close> of the user group.\<close>

definition is_word :: "char \<Rightarrow> bool" where
  "is_word c = (is_alnum_underscore c \<or> c = CHR ''-'')"

definition not_colon :: "char \<Rightarrow> bool" where
  "not_colon c = (c \<noteq> CHR '':'')"

text \<open>The groups \<open>host\<close> and \<open>port\<close>, matched at the start of \<open>s\<close>.\<close>

definition match_host_port :: "string \<Rightarrow> (string \<times> string option) option" where
  "match_host_port s =
     (let h = takeWhile not_colon s
      in if h = [] then None
         else (case dropWhile not_colon s of
                 [] \<Rightarrow> Some (h, None)
               | _ # ds \<Rightarrow>
                   (let p = takeWhile is_digit ds
                    in if p = [] then Some (h, None) else Some (h, Some p))))"

text \<open>The match object: the groups \<open>user\<close>, \<open>host\<close>, \<open>port\<close>.\<close>

definition re_match_netloc :: "string \<Rightarrow> (string option \<times> string \<times> string option) option" where
  "re_match_netloc netloc =
     (let u = takeWhile is_word netloc;
          with_user =
            (if u = [] then None
             else (case dropWhile is_word netloc of
                     [] \<Rightarrow> None
                   | a # rest \<Rightarrow> if a = CHR ''@'' then match_host_port rest else None))
      in case with_user of
           Some (h, p) \<Rightarrow> Some (Some u, h, p)
         | None \<Rightarrow>
             (case match_host_port netloc of
                Some (h, p) \<Rightarrow> Some (None, h, p)
              | None \<Rightarrow> None))"

text \<open>
  \<^verbatim>\<open>int(s)\<close> on a string of decimal digits (the interpreter's limit on the
  number of digits of such a string is not modelled).
\<close>

definition int_of_digits :: "string \<Rightarrow> int" where
  "int_of_digits ds = foldl (\<lambda>a c. 10 * a + int (code c - 48)) 0 ds"

text \<open>\<^verbatim>\<open>_parse_host_string\<close>: \<open>(username, hostname, port)\<close> or the \<^verbatim>\<open>ValueError\<close>.\<close>

definition parse_host_string :: "int \<Rightarrow> string \<Rightarrow> error + (string \<times> string \<times> int)" where
  "parse_host_string default_port netloc =
     (case re_match_netloc netloc of
        None \<Rightarrow> Inl (ValueError (''Invalid host format: '' @ netloc))
      | Some (user, host, port) \<Rightarrow>
          if host = [] then Inl (ValueError (''Invalid host format: '' @ netloc))
          else Inr (case user of None \<Rightarrow> ''netdb'' | Some u \<Rightarrow> if u = [] then ''netdb'' else u,
                    host,
                    case port of None \<Rightarrow> default_port
                               | Some ds \<Rightarrow> if ds = [] then default_port else int_of_digits ds))"

subsection \<open>The per-host supervisor\<close>

text \<open>
  \<^verbatim>\<open>run_client\<close> as a transition system over its await points. The program
  counter says which await the coroutine is suspended at: \<open>Connecting\<close> in
  \<^verbatim>\<open>asyncssh.connect\<close>, \<open>Polling\<close> in \<^verbatim>\<open>wait_for(conn.run(exec_cmd))\<close>,
  \<open>PollSleep\<close> in the sleep of the inner loop, \<open>Backoff\<close> in the sleep after the
  \<^verbatim>\<open>except\<close> clause; \<open>Cancelled\<close> is the coroutine ended by
  \<^verbatim>\<open>CancelledError\<close>, which \<^verbatim>\<open>except Exception\<close> does not catch. An event is what
  the awaited call does: it returns, raises an \<^verbatim>\<open>Exception\<close> (with
  \<^verbatim>\<open>type(e).__name__\<close> and \<^verbatim>\<open>str(e)\<close>), or is cancelled. A sleep
  (\<^verbatim>\<open>asyncio.sleep(poll_delay)\<close> with the constant delay) returns or is cancelled and
  raises nothing else; a step on an event that the await cannot produce is \<open>None\<close>.
  The arguments
  \<^verbatim>\<open>exec_cmd\<close>, \<^verbatim>\<open>username\<close>, \<^verbatim>\<open>port\<close>, \<^verbatim>\<open>poll_delay\<close> and \<^verbatim>\<open>timeout\<close>
  go to the awaited calls only.
\<close>

datatype pc = Connecting | Polling | PollSleep | Backoff | Cancelled

datatype exn = Exn string string

datatype event =
    Connected
  | Completed int string string
  | Woke
  | Raised exn
  | Cancel

text \<open>The \<^verbatim>\<open>except Exception as e\<close> clause.\<close>

definition on_exception ::
  "(string \<Rightarrow> string \<Rightarrow> string) \<Rightarrow> Context \<Rightarrow> string \<Rightarrow> exn \<Rightarrow> Context" where
  "on_exception colored ctx hostname e =
     (case e of Exn name msg \<Rightarrow>
        host_set_message colored ctx hostname (colored (name @ '': '' @ msg) ''red''))"

text \<open>The body of the polling loop after \<^verbatim>\<open>conn.run\<close> returned.\<close>

definition on_result ::
  "(string \<Rightarrow> string \<Rightarrow> string) \<Rightarrow> Context \<Rightarrow> string \<Rightarrow> int \<Rightarrow> string \<Rightarrow> string \<Rightarrow> Context" where
  "on_result colored ctx hostname exit_status stdout stderr =
     (if exit_status \<noteq> 0 then
        (let stderr_summary = (case split (CHR 0x0A) stderr of [] \<Rightarrow> [] | l # _ \<Rightarrow> l)
         in host_set_message colored ctx hostname
              (colored (''[Error '' @ str_int exit_status @ ''] '' @ stderr_summary) ''red''))
      else ctx\<lparr>host_status :=
                 setitem (host_status ctx) hostname
                   (strip stdout @ [CHR 0x0A, CHR 0x0A, CHR 0x0A, CHR 0x0A])\<rparr>)"

fun run_client_step ::
  "(string \<Rightarrow> string \<Rightarrow> string) \<Rightarrow> string \<Rightarrow> pc \<times> Context \<Rightarrow> event \<Rightarrow> (pc \<times> Context) option" where
  "run_client_step colored hostname (Cancelled, ctx) ev = None"
| "run_client_step colored hostname (p, ctx) Cancel = Some (Cancelled, ctx)"
| "run_client_step colored hostname (Connecting, ctx) Connected = Some (Polling, ctx)"
| "run_client_step colored hostname (Connecting, ctx) (Raised e) =
     Some (Backoff, on_exception colored ctx hostname e)"
| "run_client_step colored hostname (Polling, ctx) (Completed exit_status stdout stderr) =
     Some (PollSleep, on_result colored ctx hostname exit_status stdout stderr)"
| "run_client_step colored hostname (Polling, ctx) (Raised e) =
     Some (Backoff, on_exception colored ctx hostname e)"
| "run_client_step colored hostname (PollSleep, ctx) Woke = Some (Polling, ctx)"
| "run_client_step colored hostname (Backoff, ctx) Woke = Some (Connecting, ctx)"
| "run_client_step colored hostname (p, ctx) ev = None"

text \<open>The supervisor along a finite prefix of its events.\<close>

fun run_client ::
  "(string \<Rightarrow> string \<Rightarrow> string) \<Rightarrow> string \<Rightarrow> pc \<times> Context \<Rightarrow> event list \<Rightarrow> (pc \<times> Context) option" where
  "run_client colored hostname s [] = Some s"
| "run_client colored hostname s (ev # evs) =
     (case run_client_step colored hostname s ev of
        None \<Rightarrow> None
      | Some s' \<Rightarrow> run_client colored hostname s' evs)"

text \<open>
  The events of a supervisor whose connection attempts all fail: attempt \<open>i\<close>
  raises \<open>es ! i\<close>, and the backoff sleep after it completes.
\<close>

fun failing_attempts :: "exn list \<Rightarrow> event list" where
  "failing_attempts [] = []"
| "failing_attempts (e # es) = Raised e # Woke # failing_attempts es"

text \<open>
  The store under any interleaving of supervisors: each element is one step of the
  supervisor of some host at some await point; a step that cannot happen there
  leaves the context as it is.
\<close>

fun fleet_steps ::
  "(string \<Rightarrow> string \<Rightarrow> string) \<Rightarrow> Context \<Rightarrow> (string \<times> pc \<times> event) list \<Rightarrow> Context" where
  "fleet_steps colored ctx [] = ctx"
| "fleet_steps colored ctx ((hostname, p, ev) # rest) =
     (case run_client_step colored hostname (p, ctx) ev of
        None \<Rightarrow> fleet_steps colored ctx rest
      | Some (_, ctx') \<Rightarrow> fleet_steps colored ctx' rest)"

subsection \<open>The fleet coordinator\<close>

text \<open>The list comprehension over \<^verbatim>\<open>hosts\<close>: the first \<^verbatim>\<open>ValueError\<close> ends it.\<close>

fun parse_hosts :: "int \<Rightarrow> string list \<Rightarrow> error + (string \<times> string \<times> int) list" where
  "parse_hosts default_port [] = Inr []"
| "parse_hosts default_port (h # hs) =
     (case parse_host_string default_port h of
        Inl e \<Rightarrow> Inl e
      | Inr t \<Rightarrow>
          (case parse_hosts default_port hs of
             Inl e \<Rightarrow> Inl e
           | Inr ts \<Rightarrow> Inr (t # ts)))"

text \<open>The keyword arguments of one \<^verbatim>\<open>run_client\<close> call handed to \<^verbatim>\<open>asyncio.gather\<close>.\<close>

record client =
  c_hostname :: string
  c_exec_cmd :: string
  c_port :: int
  c_username :: string
  c_verify_host :: bool
  c_verbose :: bool

text \<open>
  What \<^verbatim>\<open>spawn_clients\<close> has done once the supervisors run: the context, the
  supervisors started, and the exception the \<^verbatim>\<open>except\<close> clause printed, if any.
\<close>

record startup =
  ctx_after :: Context
  started :: "client list"
  printed :: "error option"

text \<open>
  The \<^verbatim>\<open>try\<close> block. \<^verbatim>\<open>host_users, host_names, host_ports = zip(*parsed_hosts)\<close>
  raises \<^verbatim>\<open>ValueError\<close> on an empty list; \<open>exec_cmds\<close> is a \<^verbatim>\<open>dict\<close>.
\<close>

definition spawn_clients_try ::
  "(string \<Rightarrow> string \<Rightarrow> string) \<Rightarrow> string list \<Rightarrow> (string \<rightharpoonup> string) \<Rightarrow> int \<Rightarrow> bool \<Rightarrow> bool
     \<Rightarrow> Context \<Rightarrow> error + startup" where
  "spawn_clients_try colored hosts exec_cmds default_port verify_host verbose ctx =
     (case parse_hosts default_port hosts of
        Inl e \<Rightarrow> Inl e
      | Inr parsed_hosts \<Rightarrow>
          if parsed_hosts = [] then
            Inl (ValueError ''not enough values to unpack (expected 3, got 0)'')
          else
            (let host_names = map (\<lambda>(username, hostname, port). hostname) parsed_hosts;
                 ctx' = foldl (\<lambda>c hostname. host_set_message colored c hostname ''Loading ...'')
                          ctx host_names
             in Inr \<lparr>ctx_after = ctx',
                     started =
                       map (\<lambda>(username, hostname, port).
                              \<lparr>c_hostname = hostname,
                               c_exec_cmd =
                                 (case exec_cmds hostname of
                                    None \<Rightarrow> ''gpustat --color --force-color''
                                  | Some cmd \<Rightarrow> cmd),
                               c_port = port,
                               c_username = username,
                               c_verify_host = verify_host,
                               c_verbose = verbose\<rparr>)
                           parsed_hosts,
                     printed = None\<rparr>))"

text \<open>
  \<^verbatim>\<open>spawn_clients\<close>: the \<^verbatim>\<open>except Exception\<close> clause prints the exception and the
  coroutine returns normally. Every exception of the \<^verbatim>\<open>try\<close> block is raised
  before the first placeholder is written.
\<close>

definition spawn_clients ::
  "(string \<Rightarrow> string \<Rightarrow> string) \<Rightarrow> string list \<Rightarrow> (string \<rightharpoonup> string) \<Rightarrow> int \<Rightarrow> bool \<Rightarrow> bool
     \<Rightarrow> Context \<Rightarrow> error + startup" where
  "spawn_clients colored hosts exec_cmds default_port verify_host verbose ctx =
     (case spawn_clients_try colored hosts exec_cmds default_port verify_host verbose ctx of
        Inl ex \<Rightarrow> Inr \<lparr>ctx_after = ctx, started = [], printed = Some ex\<rparr>
      | Inr r \<Rightarrow> Inr r)"

subsection \<open>A sample colouring function\<close>

text \<open>
  An instance of the \<open>colored\<close> parameter for concrete evaluations: the text between
  the escape sequence of the colour and the reset sequence.
\<close>

definition ESC :: char where
  "ESC = CHR 0x1B"

definition sample_colored :: "string \<Rightarrow> string \<Rightarrow> string" where
  "sample_colored text color =
     ESC # ''['' @ (if color = ''red'' then ''31'' else ''37'') @ ''m'' @ text @ ESC # ''[0m''"

subsection \<open>The snapshot of the specification\<close>

text \<open>
  The specification's \<open>snapshot(filter)\<close>: the entries of the store in its order,
  without the hosts outside the filter when one is given, without the entries whose
  text is empty.
\<close>

definition snapshot :: "store \<Rightarrow> string list option \<Rightarrow> (string \<times> string) list" where
  "snapshot d nodes =
     filter (\<lambda>(host, status). status \<noteq> [] \<and> (case nodes of None \<Rightarrow> True | Some ns \<Rightarrow> host \<in> set ns)) d"

subsection \<open>Host tokens of the specification\<close>



text \<open>
  A token that \<^verbatim>\<open>_parse_host_string\<close> rejects: the test
  \<^verbatim>\<open>not match or not match.group("host")\<close>.
\<close>

definition malformed :: "string \<Rightarrow> bool" where
  "malformed netloc =
     (case re_match_netloc netloc of None \<Rightarrow> True | Some (user, host, port) \<Rightarrow> host = [])"

subsection \<open>Store invariant\<close>

text \<open>
  A text that is not empty and ends in a newline; a store all of whose texts are
  such; a store that has an entry for a host.
\<close>

definition nl_terminated :: "string \<Rightarrow> bool" where
  "nl_terminated s = (s \<noteq> [] \<and> last s = CHR 0x0A)"

definition store_ok :: "store \<Rightarrow> bool" where
  "store_ok d = list_all (\<lambda>(hostname, status). nl_terminated status) d"

definition has_key :: "store \<Rightarrow> string \<Rightarrow> bool" where
  "has_key d k = (k \<in> set (map fst d))"

subsection \<open>Escape codes of the specification\<close>

text \<open>
  A text is free of escape codes when \<^verbatim>\<open>RE_ANSI\<close> matches at none of its positions.
  The specification's stripping of all escape codes deletes the leftmost escape code
  of the text, again and again, until the text is free of them; it is defined from the
  pattern alone, not from \<^const>\<open>RE_ANSI_sub\<close>. The lemma is what its termination
  needs. The last predicate says that every ESC character of a text begins a match.
\<close>

fun code_free :: "string \<Rightarrow> bool" where
  "code_free [] = True"
| "code_free (c # cs) = (RE_ANSI_match (c # cs) = None \<and> code_free cs)"






section \<open>Properties\<close>

subsection \<open>Helper lemmas\<close>

lemma render_loop_snapshot:
  "render_loop body items nodes = body @ concat (map snd (snapshot items nodes))"
proof (cases nodes)
  case None
  then show ?thesis
    by (induction items arbitrary: body) (simp_all add: snapshot_def split: prod.splits)
next
  case (Some ns)
  then show ?thesis
    by (induction items arbitrary: body) (simp_all add: snapshot_def split: prod.splits)
qed

lemma setitem_keys:
  "map fst (setitem d k v) = (if k \<in> set (map fst d) then map fst d else map fst d @ [k])"
  by (simp add: setitem_def update_keys)

lemma map_of_setitem: "map_of (setitem d k v) = (map_of d)(k \<mapsto> v)"
  by (simp add: setitem_def update_conv')


lemma dropWhile_all: "list_all P xs \<Longrightarrow> dropWhile P xs = []"
  by (induction xs) auto







lemma parse_host_string_Inl:
  "malformed netloc \<Longrightarrow>
     parse_host_string default_port netloc = Inl (ValueError (''Invalid host format: '' @ netloc))"
  by (auto simp: parse_host_string_def malformed_def split: option.splits)

lemma parse_host_string_Inr:
  "\<not> malformed netloc \<Longrightarrow> \<exists>t. parse_host_string default_port netloc = Inr t"
  by (auto simp: parse_host_string_def malformed_def split: option.splits)

lemma match_host_port_None: "match_host_port s = None \<longleftrightarrow> takeWhile not_colon s = []"
  by (auto simp: match_host_port_def Let_def split: list.splits)

lemma match_host_port_host: "match_host_port s = Some (h, p) \<Longrightarrow> h \<noteq> []"
  by (auto simp: match_host_port_def Let_def split: list.splits if_splits)

lemma malformed_iff: "malformed netloc \<longleftrightarrow> (case netloc of [] \<Rightarrow> True | c # _ \<Rightarrow> c = CHR '':'')"
proof -
  have nw: "\<not> is_word CHR '':''"
    by (simp add: is_word_def is_alnum_underscore_def is_digit_def code_def)
  have w: "takeWhile not_colon netloc = [] \<Longrightarrow> takeWhile is_word netloc = []"
    using nw by (cases netloc) (auto simp: not_colon_def split: if_splits)
  have a1: "re_match_netloc netloc = None \<Longrightarrow> match_host_port netloc = None"
    by (simp add: re_match_netloc_def Let_def split: option.splits prod.splits)
  have a2: "re_match_netloc netloc = None" if m: "match_host_port netloc = None"
  proof -
    from m have "takeWhile is_word netloc = []"
      by (simp add: w match_host_port_None)
    with m show ?thesis
      by (simp add: re_match_netloc_def)
  qed
  have a: "re_match_netloc netloc = None \<longleftrightarrow> match_host_port netloc = None"
    using a1 a2 by blast
  have b: "re_match_netloc netloc = Some (u, h, p) \<Longrightarrow> h \<noteq> []" for u h p
    by (auto simp: re_match_netloc_def Let_def split: option.splits list.splits if_splits
             dest: match_host_port_host)
  have "malformed netloc \<longleftrightarrow> re_match_netloc netloc = None"
    using b by (auto simp: malformed_def split: option.splits)
  also have "\<dots> \<longleftrightarrow> takeWhile not_colon netloc = []"
    by (simp add: a match_host_port_None)
  also have "\<dots> \<longleftrightarrow> (case netloc of [] \<Rightarrow> True | c # _ \<Rightarrow> c = CHR '':'')"
    by (cases netloc) (auto simp: not_colon_def)
  finally show ?thesis .
qed

lemma parse_hosts_malformed:
  "\<exists>h\<in>set hosts. malformed h \<Longrightarrow>
     \<exists>bad\<in>set hosts. malformed bad \<and>
        parse_hosts default_port hosts = Inl (ValueError (''Invalid host format: '' @ bad))"
proof (induction hosts)
  case Nil
  then show ?case by simp
next
  case (Cons h hs)
  show ?case
  proof (cases "malformed h")
    case True
    then show ?thesis by (auto simp: parse_host_string_Inl)
  next
    case False
    then obtain t where t: "parse_host_string default_port h = Inr t"
      using parse_host_string_Inr by blast
    from False Cons.prems have "\<exists>h\<in>set hs. malformed h" by auto
    from Cons.IH [OF this] t show ?thesis by auto
  qed
qed

lemma parse_hosts_well_formed:
  "\<forall>h\<in>set hosts. \<not> malformed h \<Longrightarrow>
     \<exists>ts. parse_hosts default_port hosts = Inr ts
        \<and> map Inr ts = map (parse_host_string default_port) hosts"
proof (induction hosts)
  case Nil
  then show ?case by simp
next
  case (Cons h hs)
  then obtain t where t: "parse_host_string default_port h = Inr t"
    using parse_host_string_Inr by (metis list.set_intros(1))
  from Cons obtain ts where "parse_hosts default_port hs = Inr ts"
    "map Inr ts = map (parse_host_string default_port) hs" by auto
  with t show ?case by simp
qed

lemma spawn_clients_malformed:
  assumes "\<exists>h\<in>set hosts. malformed h"
  shows "\<exists>bad\<in>set hosts. malformed bad \<and>
     spawn_clients colored hosts exec_cmds default_port verify_host verbose ctx =
       Inr \<lparr>ctx_after = ctx, started = [],
            printed = Some (ValueError (''Invalid host format: '' @ bad))\<rparr>"
  using parse_hosts_malformed [OF assms, of default_port]
  by (auto simp: spawn_clients_def spawn_clients_try_def)

lemma spawn_clients_well_formed:
  assumes "hosts \<noteq> []" "\<forall>h\<in>set hosts. \<not> malformed h"
  shows "\<exists>r. spawn_clients colored hosts exec_cmds default_port verify_host verbose ctx = Inr r
     \<and> printed r = None
     \<and> map (\<lambda>c. Inr (c_username c, c_hostname c, c_port c)) (started r) =
         map (parse_host_string default_port) hosts"
proof -
  from parse_hosts_well_formed [OF assms(2), of default_port]
  obtain ts where ts: "parse_hosts default_port hosts = Inr ts"
    "map Inr ts = map (parse_host_string default_port) hosts" by blast
  from ts(2) assms(1) have ne: "ts \<noteq> []" by auto
  have "map (\<lambda>c. Inr (c_username c, c_hostname c, c_port c))
          (map (\<lambda>(username, hostname, port).
                  \<lparr>c_hostname = hostname,
                   c_exec_cmd = (case exec_cmds hostname of None \<Rightarrow> ''gpustat --color --force-color'' | Some cmd \<Rightarrow> cmd),
                   c_port = port, c_username = username,
                   c_verify_host = verify_host, c_verbose = verbose\<rparr>) ts)
        = (map Inr ts :: (error + string \<times> string \<times> int) list)"
    by (induction ts) auto
  with ts ne show ?thesis
    by (simp add: spawn_clients_def spawn_clients_try_def Let_def)
qed

lemma spawn_clients_returns: "\<not> isl (spawn_clients colored hosts exec_cmds default_port verify_host verbose ctx)"
  by (simp add: spawn_clients_def split: sum.splits)


lemma placeholders_map_of:
  "map_of (host_status (foldl (\<lambda>c hostname. host_set_message colored c hostname msg) ctx hs)) k =
     (if k \<in> set hs then Some (colored (''('' @ k @ '') '') ''white'' @ msg @ [CHR 0x0A])
      else map_of (host_status ctx) k)"
  by (induction hs arbitrary: ctx) (auto simp: host_set_message_def map_of_setitem)

lemma snapshot_None_mem: "(k, v) \<in> set d \<Longrightarrow> v \<noteq> [] \<Longrightarrow> (k, v) \<in> set (snapshot d None)"
  by (simp add: snapshot_def)

lemma spawn_clients_ctx_after:
  assumes "hosts \<noteq> []" "\<forall>h\<in>set hosts. \<not> malformed h"
  obtains r ts where
    "spawn_clients colored hosts exec_cmds default_port verify_host verbose ctx = Inr r"
    "map Inr ts = map (parse_host_string default_port) hosts"
    "ctx_after r = foldl (\<lambda>c hostname. host_set_message colored c hostname ''Loading ...'') ctx
                        (map (\<lambda>(username, hostname, port). hostname) ts)"
    "map c_hostname (started r) = map (\<lambda>(username, hostname, port). hostname) ts"
proof -
  from parse_hosts_well_formed [OF assms(2), of default_port]
  obtain ts where ts: "parse_hosts default_port hosts = Inr ts"
    "map Inr ts = map (parse_host_string default_port) hosts" by blast
  from ts(2) assms(1) have ne: "ts \<noteq> []" by auto
  let ?mk = "\<lambda>(username, hostname, port).
                  \<lparr>c_hostname = hostname,
                   c_exec_cmd = (case exec_cmds hostname of None \<Rightarrow> ''gpustat --color --force-color'' | Some cmd \<Rightarrow> cmd),
                   c_port = port, c_username = username,
                   c_verify_host = verify_host, c_verbose = verbose\<rparr>"
  let ?r = "\<lparr>ctx_after = foldl (\<lambda>c hostname. host_set_message colored c hostname ''Loading ...'') ctx
                        (map (\<lambda>(username, hostname, port). hostname) ts),
            started = map ?mk ts, printed = None\<rparr>"
  have hn: "map c_hostname (map ?mk ts) = map (\<lambda>(username, hostname, port). hostname) ts"
    by (induction ts) auto
  have s: "spawn_clients colored hosts exec_cmds default_port verify_host verbose ctx = Inr ?r"
    using ts ne by (simp add: spawn_clients_def spawn_clients_try_def Let_def)
  have c: "ctx_after ?r = foldl (\<lambda>c hostname. host_set_message colored c hostname ''Loading ...'') ctx
                        (map (\<lambda>(username, hostname, port). hostname) ts)"
    by simp
  have st: "map c_hostname (started ?r) = map (\<lambda>(username, hostname, port). hostname) ts"
    using hn by simp
  from that [OF s ts(2) c st] show thesis .
qed

lemma parsed_mem:
  assumes "map Inr ts = map f hosts" "h \<in> set hosts" "f h = Inr t"
  shows "t \<in> set ts"
proof -
  from assms(2,3) have "Inr t \<in> set (map f hosts)" by force
  then have "f h \<in> set (map Inr ts)" by (simp only: assms(1) assms(3))
  then show ?thesis using assms(3) by auto
qed

lemma store_ok_setitem: "store_ok d \<Longrightarrow> nl_terminated v \<Longrightarrow> store_ok (setitem d k v)"
  by (induction d) (auto simp: store_ok_def setitem_def)

lemma store_ok_host_set_message:
  "store_ok (host_status ctx) \<Longrightarrow> store_ok (host_status (host_set_message colored ctx hostname msg))"
  by (simp add: host_set_message_def store_ok_setitem nl_terminated_def)

lemma store_ok_on_exception:
  "store_ok (host_status ctx) \<Longrightarrow> store_ok (host_status (on_exception colored ctx hostname e))"
  by (cases e) (simp add: on_exception_def store_ok_host_set_message)

lemma store_ok_on_result:
  "store_ok (host_status ctx) \<Longrightarrow>
     store_ok (host_status (on_result colored ctx hostname exit_status stdout stderr))"
  by (simp add: on_result_def Let_def store_ok_host_set_message store_ok_setitem nl_terminated_def)

lemma store_ok_step:
  "store_ok (host_status ctx) \<Longrightarrow> run_client_step colored hostname (p, ctx) ev = Some (p', ctx') \<Longrightarrow>
     store_ok (host_status ctx')"
  by (cases "(colored, hostname, (p, ctx), ev)" rule: run_client_step.cases)
     (auto simp: store_ok_on_exception store_ok_on_result)

lemma store_ok_fleet_steps:
  "store_ok (host_status ctx) \<Longrightarrow> store_ok (host_status (fleet_steps colored ctx steps))"
proof (induction steps arbitrary: ctx)
  case Nil
  then show ?case by simp
next
  case (Cons s steps)
  obtain hostname p ev where s: "s = (hostname, p, ev)" by (cases s)
  show ?case
  proof (cases "run_client_step colored hostname (p, ctx) ev")
    case None
    with s Cons show ?thesis by simp
  next
    case (Some st)
    obtain p' ctx' where st: "st = (p', ctx')" by (cases st)
    from store_ok_step [OF Cons.prems] Some st have "store_ok (host_status ctx')" by simp
    from Cons.IH [OF this] s Some st show ?thesis by simp
  qed
qed

lemma store_ok_placeholders:
  "store_ok (host_status ctx) \<Longrightarrow>
     store_ok (host_status (foldl (\<lambda>c hostname. host_set_message colored c hostname msg) ctx hs))"
  by (induction hs arbitrary: ctx) (simp_all add: store_ok_host_set_message)

lemma keys_setitem: "has_key d k' \<Longrightarrow> has_key (setitem d k v) k'"
  by (simp add: has_key_def setitem_def dom_update)

lemma keys_host_set_message:
  "has_key (host_status ctx) k \<Longrightarrow>
     has_key (host_status (host_set_message colored ctx hostname msg)) k"
  by (simp add: host_set_message_def keys_setitem)

lemma keys_on_exception:
  "has_key (host_status ctx) k \<Longrightarrow> has_key (host_status (on_exception colored ctx hostname e)) k"
  by (cases e) (simp add: on_exception_def keys_host_set_message)

lemma keys_on_result:
  "has_key (host_status ctx) k \<Longrightarrow>
     has_key (host_status (on_result colored ctx hostname exit_status stdout stderr)) k"
  by (simp add: on_result_def Let_def keys_host_set_message keys_setitem)

lemma keys_step:
  "run_client_step colored hostname (p, ctx) ev = Some (p', ctx') \<Longrightarrow>
     has_key (host_status ctx) k \<Longrightarrow> has_key (host_status ctx') k"
  by (cases "(colored, hostname, (p, ctx), ev)" rule: run_client_step.cases)
     (auto simp: keys_on_exception keys_on_result)

lemma keys_fleet_steps:
  "has_key (host_status ctx) k \<Longrightarrow> has_key (host_status (fleet_steps colored ctx steps)) k"
proof (induction steps arbitrary: ctx)
  case Nil
  then show ?case by simp
next
  case (Cons s steps)
  obtain hostname p ev where s: "s = (hostname, p, ev)" by (cases s)
  show ?case
  proof (cases "run_client_step colored hostname (p, ctx) ev")
    case None
    with s Cons show ?thesis by simp
  next
    case (Some st)
    obtain p' ctx' where st: "st = (p', ctx')" by (cases st)
    from keys_step [OF _ Cons.prems] Some st have "has_key (host_status ctx') k" by simp
    from Cons.IH [OF this] s Some st show ?thesis by simp
  qed
qed

lemma snapshot_store_ok: "store_ok d \<Longrightarrow> snapshot d None = d"
  by (induction d) (auto simp: store_ok_def snapshot_def nl_terminated_def)

lemma store_ok_entry:
  assumes "store_ok d" "has_key d k"
  shows "\<exists>s. map_of d k = Some s \<and> nl_terminated s \<and> (k, s) \<in> set (snapshot d None)"
proof -
  from assms(2) obtain s where s: "map_of d k = Some s"
    unfolding has_key_def by (metis domD dom_map_of_conv_image_fst set_map)
  then have m: "(k, s) \<in> set d" by (rule map_of_SomeD)
  with assms(1) have "nl_terminated s" by (auto simp: store_ok_def list_all_iff)
  with s m assms(1) show ?thesis by (simp add: snapshot_store_ok)
qed

lemma has_key_placeholders:
  "k \<in> set hs \<Longrightarrow>
     has_key (host_status (foldl (\<lambda>c hostname. host_set_message colored c hostname msg) ctx hs)) k"
proof -
  assume "k \<in> set hs"
  then have "map_of (host_status (foldl (\<lambda>c hostname. host_set_message colored c hostname msg) ctx hs)) k \<noteq> None"
    by (simp add: placeholders_map_of)
  then show ?thesis
    unfolding has_key_def by (metis domIff dom_map_of_conv_image_fst set_map)
qed

lemma store_ok_spawn_clients:
  assumes "store_ok (host_status ctx)"
    and "spawn_clients colored hosts exec_cmds default_port verify_host verbose ctx = Inr r"
  shows "store_ok (host_status (ctx_after r))"
  using assms
  by (auto simp: spawn_clients_def spawn_clients_try_def Let_def store_ok_placeholders
           split: sum.splits if_splits)

lemma has_key_spawn_clients:
  assumes "spawn_clients colored hosts exec_cmds default_port verify_host verbose ctx = Inr r"
    and "c \<in> set (started r)"
  shows "has_key (host_status (ctx_after r)) (c_hostname c)"
proof (cases "spawn_clients_try colored hosts exec_cmds default_port verify_host verbose ctx")
  case (Inl e)
  with assms show ?thesis by (auto simp: spawn_clients_def)
next
  case (Inr r')
  with assms(1) have r: "r' = r" by (simp add: spawn_clients_def)
  from Inr obtain ts where ts: "parse_hosts default_port hosts = Inr ts" "ts \<noteq> []"
    by (auto simp: spawn_clients_try_def split: sum.splits if_splits)
  with Inr r have c: "ctx_after r = foldl (\<lambda>c hostname. host_set_message colored c hostname ''Loading ...'') ctx
                        (map (\<lambda>(username, hostname, port). hostname) ts)"
    and st: "c_hostname ` set (started r) = set (map (\<lambda>(username, hostname, port). hostname) ts)"
    by (auto simp: spawn_clients_try_def Let_def image_iff split: prod.splits) force+
  from st assms(2) have "c_hostname c \<in> set (map (\<lambda>(username, hostname, port). hostname) ts)"
    by blast
  then show ?thesis
    by (simp only: c has_key_placeholders)
qed

lemma host_set_message_write:
  "\<exists>v. nl_terminated v
      \<and> host_set_message colored c hostname msg = c\<lparr>host_status := setitem (host_status c) hostname v\<rparr>"
  by (rule exI [of _ "colored (''('' @ hostname @ '') '') ''white'' @ msg @ [CHR 0x0A]"])
     (simp add: host_set_message_def nl_terminated_def)

lemma on_exception_write:
  "\<exists>v. nl_terminated v
      \<and> on_exception colored c hostname e = c\<lparr>host_status := setitem (host_status c) hostname v\<rparr>"
  by (cases e) (simp add: on_exception_def host_set_message_write)

lemma on_result_write:
  "\<exists>v. nl_terminated v
      \<and> on_result colored c hostname exit_status stdout stderr =
          c\<lparr>host_status := setitem (host_status c) hostname v\<rparr>"
proof (cases "exit_status = 0")
  case True
  show ?thesis
    by (rule exI [of _ "strip stdout @ [CHR 0x0A, CHR 0x0A, CHR 0x0A, CHR 0x0A]"])
       (simp add: on_result_def True nl_terminated_def)
next
  case False
  then show ?thesis
    by (simp add: on_result_def Let_def host_set_message_write)
qed

lemma step_writes:
  assumes "run_client_step colored hostname (p, c) ev = Some (p', c')"
  shows "c' = c \<or> (\<exists>v. nl_terminated v \<and> c' = c\<lparr>host_status := setitem (host_status c) hostname v\<rparr>)"
proof (cases "(colored, hostname, (p, c), ev)" rule: run_client_step.cases)
  case (4 col h ctx e)
  with assms have "c' = on_exception colored c hostname e" by auto
  then show ?thesis using on_exception_write by blast
next
  case (5 col h ctx exit_status stdout stderr)
  with assms have "c' = on_result colored c hostname exit_status stdout stderr" by auto
  then show ?thesis using on_result_write by blast
next
  case (6 col h ctx e)
  with assms have "c' = on_exception colored c hostname e" by auto
  then show ?thesis using on_exception_write by blast
qed (use assms in auto)

lemma map_of_on_exception:
  "map_of (host_status (on_exception colored ctx hostname (Exn name msg))) hostname =
     Some (colored (''('' @ hostname @ '') '') ''white'' @ colored (name @ '': '' @ msg) ''red''
           @ [CHR 0x0A])"
  by (simp add: on_exception_def host_set_message_def map_of_setitem)

lemma map_of_on_result:
  "map_of (host_status (on_result colored ctx hostname exit_status stdout stderr)) hostname =
     Some (if exit_status \<noteq> 0
           then colored (''('' @ hostname @ '') '') ''white''
                @ colored (''[Error '' @ str_int exit_status @ ''] ''
                           @ (case split (CHR 0x0A) stderr of [] \<Rightarrow> [] | l # _ \<Rightarrow> l)) ''red''
                @ [CHR 0x0A]
           else strip stdout @ [CHR 0x0A, CHR 0x0A, CHR 0x0A, CHR 0x0A])"
  by (simp add: on_result_def host_set_message_def map_of_setitem Let_def)

lemma run_client_failing_attempts:
  "run_client colored hostname (Connecting, ctx) (failing_attempts es) =
     Some (Connecting, foldl (\<lambda>c e. on_exception colored c hostname e) ctx es)"
  by (induction es arbitrary: ctx) simp_all

lemma step_not_cancelled:
  "ev \<noteq> Cancel \<Longrightarrow> run_client_step colored hostname (p, c) ev = Some (p', c') \<Longrightarrow> p' \<noteq> Cancelled"
  by (cases "(colored, hostname, (p, c), ev)" rule: run_client_step.cases) auto

lemma run_not_cancelled:
  "Cancel \<notin> set evs \<Longrightarrow> p \<noteq> Cancelled \<Longrightarrow>
     run_client colored hostname (p, c) evs = Some (p', c') \<Longrightarrow> p' \<noteq> Cancelled"
proof (induction evs arbitrary: p c)
  case Nil
  then show ?case by simp
next
  case (Cons ev evs)
  from Cons.prems(3) obtain p1 c1 where
    s: "run_client_step colored hostname (p, c) ev = Some (p1, c1)"
    and r: "run_client colored hostname (p1, c1) evs = Some (p', c')"
    by (auto split: option.splits)
  from Cons.prems(1) have "ev \<noteq> Cancel" by auto
  from step_not_cancelled [OF this s] have "p1 \<noteq> Cancelled" .
  from Cons.IH [OF _ this r] Cons.prems(1) show ?case by simp
qed

lemma sample_colored_sublist: "sublist t (sample_colored t c)"
  unfolding sublist_def sample_colored_def
  by (rule exI [of _ "ESC # ''['' @ (if c = ''red'' then ''31'' else ''37'') @ ''m''"],
      rule exI [of _ "ESC # ''[0m''"]) simp

lemma snapshot_no_key:
  "k \<notin> set (map fst d) \<Longrightarrow> snapshot d (Some [k]) = []"
  by (induction d) (auto simp: snapshot_def)

lemma snapshot_single:
  "distinct (map fst d) \<Longrightarrow> v \<noteq> [] \<Longrightarrow> snapshot (setitem d k v) (Some [k]) = [(k, v)]"
proof (induction d)
  case Nil
  then show ?case by (simp add: snapshot_def setitem_def)
next
  case (Cons a d)
  obtain k' v' where a: "a = (k', v')" by (cases a)
  show ?case
  proof (cases "k' = k")
    case True
    with Cons.prems a have "k \<notin> set (map fst d)" by auto
    from snapshot_no_key [OF this] True a Cons.prems(2) show ?thesis
      by (simp add: snapshot_def setitem_def)
  next
    case False
    from Cons.prems have "distinct (map fst d)" by simp
    from Cons.IH [OF this Cons.prems(2)] False a show ?thesis
      by (simp add: snapshot_def setitem_def)
  qed
qed

lemma distinct_setitem: "distinct (map fst d) \<Longrightarrow> distinct (map fst (setitem d k v))"
  by (simp add: setitem_def distinct_update)

lemma strip_all_space: "list_all isspace v \<Longrightarrow> strip v = []"
  by (simp add: strip_def dropWhile_all)

lemma snapshot_empty_name:
  "\<not> has_key d [] \<Longrightarrow> snapshot d (Some [[]]) = []"
  by (induction d) (auto simp: snapshot_def has_key_def)



lemma no_esc_code_free: "list_all (\<lambda>c. code c \<noteq> 27) s \<Longrightarrow> code_free s"
proof (induction s)
  case Nil
  then show ?case by simp
next
  case (Cons c cs)
  then have "RE_ANSI_match (c # cs) = None" by (cases cs) simp_all
  with Cons show ?case by simp
qed










subsection \<open>Rendering\<close>

text \<open>
  Claim C2. For every store and every optional host filter, the body that
  \<^verbatim>\<open>render_gpustat_body\<close> builds is the concatenation of the texts of the snapshot:
  the entries of the store in the store's order, none of a host outside the filter
  when a filter is given, none whose text is empty. The raw format returns this body
  as it is, and a write keeps the order of the keys: an existing key keeps its place
  and a new key goes last.
\<close>

theorem render_gpustat_body_snapshot:
  "fst (render_gpustat_body convert ''ansi'' full_html nodes ctx) =
     Inr (concat (map snd (snapshot (host_status ctx) nodes)))
   \<and> fst (render_gpustat_body convert ''plain'' full_html nodes ctx) =
     Inr (RE_ANSI_sub (concat (map snd (snapshot (host_status ctx) nodes))))
   \<and> fst (render_gpustat_body convert ''html'' full_html nodes ctx) =
     Inr (convert (concat (map snd (snapshot (host_status ctx) nodes))) full_html)
   \<and> map fst (setitem d k v) = (if k \<in> set (map fst d) then map fst d else map fst d @ [k])"
  by (simp add: render_gpustat_body_def render_loop_snapshot setitem_keys)

text \<open>
  Claim C7. For every store, a call of \<^verbatim>\<open>render_gpustat_body\<close> with a mode other
  than \<^verbatim>\<open>html\<close>, \<^verbatim>\<open>ansi\<close> and \<^verbatim>\<open>plain\<close> raises the \<^verbatim>\<open>ValueError\<close> carrying
  the mode, and the context after a call in any mode is the context before it.
\<close>

theorem render_gpustat_body_invalid_format:
  "(mode \<notin> {''html'', ''ansi'', ''plain''} \<longrightarrow>
      render_gpustat_body convert mode full_html nodes ctx = (Inl (ValueError mode), ctx))
   \<and> snd (render_gpustat_body convert mode' full_html nodes ctx) = ctx"
  by (simp add: render_gpustat_body_def Let_def)

theorem render_gpustat_body_invalid_format_witness:
  "''json'' \<notin> {''html'', ''ansi'', ''plain''}
   \<and> render_gpustat_body (\<lambda>b f. b) ''json'' True None
        \<lparr>host_status = [(''node1'', ''x'')], interval = 5\<rparr>
      = (Inl (ValueError ''json''), \<lparr>host_status = [(''node1'', ''x'')], interval = 5\<rparr>)
   \<and> snd (render_gpustat_body (\<lambda>b f. b) ''ansi'' True None
        \<lparr>host_status = [(''node1'', ''x'')], interval = 5\<rparr>)
      = \<lparr>host_status = [(''node1'', ''x'')], interval = 5\<rparr>"
  using render_gpustat_body_invalid_format
          [of "''json''" "\<lambda>b f. b" True None
              "\<lparr>host_status = [(''node1'', ''x'')], interval = 5\<rparr>" "''ansi''"]
  by simp




subsection \<open>Host tokens\<close>




subsection \<open>Fleet startup\<close>

text \<open>
  Claim C5, as stated, fails: with the host list \<^verbatim>\<open>[":bad", "node2"]\<close> the
  well-formed token \<^verbatim>\<open>node2\<close> gets no supervisor and no placeholder, and with
  the wholly malformed list \<^verbatim>\<open>[":bad"]\<close> the coroutine prints the error and
  returns normally, so that no error reaches its caller.
\<close>

theorem spawn_clients_partial_fleet_counterexample:
  "malformed '':bad'' \<and> \<not> malformed ''node2''
   \<and> spawn_clients sample_colored ['':bad'', ''node2''] Map.empty 22 True False Context_init =
       Inr \<lparr>ctx_after = Context_init, started = [],
            printed = Some (ValueError ''Invalid host format: :bad'')\<rparr>
   \<and> spawn_clients sample_colored ['':bad''] Map.empty 22 True False Context_init =
       Inr \<lparr>ctx_after = Context_init, started = [],
            printed = Some (ValueError ''Invalid host format: :bad'')\<rparr>"
  by (simp add: malformed_iff spawn_clients_def spawn_clients_try_def parse_host_string_Inl)

text \<open>
  Claim C5, amended. When some token of the host list is malformed,
  \<^verbatim>\<open>spawn_clients\<close> starts no supervisor and writes no placeholder, prints the parse
  error of a malformed token and returns normally. When the list is not empty and
  every token is well-formed, it starts one supervisor per token, in the order of the
  list, with the parsed user, host and port, and prints no error. In no case does
  it raise to its caller.
\<close>

theorem spawn_clients_all_or_nothing:
  "((\<exists>h\<in>set hosts. malformed h) \<longrightarrow>
      (\<exists>bad\<in>set hosts. malformed bad \<and>
         spawn_clients colored hosts exec_cmds default_port verify_host verbose ctx =
           Inr \<lparr>ctx_after = ctx, started = [],
                printed = Some (ValueError (''Invalid host format: '' @ bad))\<rparr>))
   \<and> (hosts \<noteq> [] \<and> (\<forall>h\<in>set hosts. \<not> malformed h) \<longrightarrow>
      (\<exists>r. spawn_clients colored hosts exec_cmds default_port verify_host verbose ctx = Inr r
         \<and> printed r = None
         \<and> map (\<lambda>c. Inr (c_username c, c_hostname c, c_port c)) (started r) =
             map (parse_host_string default_port) hosts))
   \<and> \<not> isl (spawn_clients colored hosts exec_cmds default_port verify_host verbose ctx)"
proof (intro conjI impI)
  assume "\<exists>h\<in>set hosts. malformed h"
  then show "\<exists>bad\<in>set hosts. malformed bad \<and>
         spawn_clients colored hosts exec_cmds default_port verify_host verbose ctx =
           Inr \<lparr>ctx_after = ctx, started = [],
                printed = Some (ValueError (''Invalid host format: '' @ bad))\<rparr>"
    by (rule spawn_clients_malformed)
next
  assume "hosts \<noteq> [] \<and> (\<forall>h\<in>set hosts. \<not> malformed h)"
  then show "\<exists>r. spawn_clients colored hosts exec_cmds default_port verify_host verbose ctx = Inr r
         \<and> printed r = None
         \<and> map (\<lambda>c. Inr (c_username c, c_hostname c, c_port c)) (started r) =
             map (parse_host_string default_port) hosts"
    by (simp add: spawn_clients_well_formed)
next
  show "\<not> isl (spawn_clients colored hosts exec_cmds default_port verify_host verbose ctx)"
    by (rule spawn_clients_returns)
qed

theorem spawn_clients_all_or_nothing_witness:
  "malformed '':bad''
   \<and> spawn_clients sample_colored ['':bad'', ''node2''] Map.empty 22 True False Context_init =
       Inr \<lparr>ctx_after = Context_init, started = [],
            printed = Some (ValueError ''Invalid host format: :bad'')\<rparr>
   \<and> [''alice@node1:2222'', ''node2''] \<noteq> []
   \<and> \<not> malformed ''alice@node1:2222'' \<and> \<not> malformed ''node2''
   \<and> (\<exists>r. spawn_clients sample_colored [''alice@node1:2222'', ''node2''] Map.empty 22 True False
              Context_init = Inr r
          \<and> printed r = None
          \<and> map (\<lambda>c. Inr (c_username c, c_hostname c, c_port c)) (started r) =
              map (parse_host_string 22) [''alice@node1:2222'', ''node2''])"
proof -
  have b: "malformed '':bad''" "\<not> malformed ''node2''" "\<not> malformed ''alice@node1:2222''"
    by (simp_all add: malformed_iff)
  from b have 1: "\<exists>h\<in>set ['':bad'', ''node2'']. malformed h" by simp
  from b have 2: "\<forall>h\<in>set [''alice@node1:2222'', ''node2'']. \<not> malformed h" by simp
  from spawn_clients_all_or_nothing [of "['':bad'', ''node2'']" sample_colored Map.empty 22 True False Context_init] 1 b
  have 3: "spawn_clients sample_colored ['':bad'', ''node2''] Map.empty 22 True False Context_init =
       Inr \<lparr>ctx_after = Context_init, started = [],
            printed = Some (ValueError ''Invalid host format: :bad'')\<rparr>"
    by auto
  from spawn_clients_all_or_nothing [of "[''alice@node1:2222'', ''node2'']" sample_colored Map.empty 22 True False Context_init] 2
  have 4: "\<exists>r. spawn_clients sample_colored [''alice@node1:2222'', ''node2''] Map.empty 22 True False
              Context_init = Inr r
          \<and> printed r = None
          \<and> map (\<lambda>c. Inr (c_username c, c_hostname c, c_port c)) (started r) =
              map (parse_host_string 22) [''alice@node1:2222'', ''node2'']"
    by blast
  from b 2 3 4 show ?thesis by blast
qed

text \<open>
  Claim C6. When the placeholder writes of \<^verbatim>\<open>spawn_clients\<close> happen (the host list
  is not empty and every token is well-formed), then before any supervisor step the
  store maps the host name of every configured token to the text
  \<^verbatim>\<open>colored("(host) ", "white") + "Loading ...\n"\<close>, which is not empty, and the
  snapshot without filter contains that entry.
\<close>

theorem spawn_clients_placeholders:
  assumes "hosts \<noteq> []" "\<forall>h\<in>set hosts. \<not> malformed h"
    and "h \<in> set hosts" "parse_host_string default_port h = Inr (username, hostname, port)"
  shows "\<exists>r. spawn_clients colored hosts exec_cmds default_port verify_host verbose ctx = Inr r
     \<and> (let text = colored (''('' @ hostname @ '') '') ''white'' @ ''Loading ...'' @ [CHR 0x0A]
        in text \<noteq> []
           \<and> map_of (host_status (ctx_after r)) hostname = Some text
           \<and> (hostname, text) \<in> set (snapshot (host_status (ctx_after r)) None))"
proof -
  obtain r ts where r: "spawn_clients colored hosts exec_cmds default_port verify_host verbose ctx = Inr r"
    and ts: "map Inr ts = map (parse_host_string default_port) hosts"
    and c: "ctx_after r = foldl (\<lambda>c hostname. host_set_message colored c hostname ''Loading ...'') ctx
                        (map (\<lambda>(username, hostname, port). hostname) ts)"
    by (rule spawn_clients_ctx_after [OF assms(1,2)])
  from parsed_mem [OF ts assms(3,4)] have "(username, hostname, port) \<in> set ts" .
  then have "hostname \<in> set (map (\<lambda>(username, hostname, port). hostname) ts)" by force
  then have m: "map_of (host_status (ctx_after r)) hostname =
      Some (colored (''('' @ hostname @ '') '') ''white'' @ ''Loading ...'' @ [CHR 0x0A])"
    by (simp only: c placeholders_map_of if_True)
  from map_of_SomeD [OF m] have "(hostname, colored (''('' @ hostname @ '') '') ''white'' @ ''Loading ...'' @ [CHR 0x0A])
     \<in> set (snapshot (host_status (ctx_after r)) None)"
    by (rule snapshot_None_mem) simp
  with r m show ?thesis by (simp add: Let_def)
qed

theorem spawn_clients_placeholders_witness:
  "[''alice@node1:2222'', ''node2''] \<noteq> []
   \<and> \<not> malformed ''alice@node1:2222'' \<and> \<not> malformed ''node2''
   \<and> ''node2'' \<in> set [''alice@node1:2222'', ''node2'']
   \<and> parse_host_string 22 ''node2'' = Inr (''netdb'', ''node2'', 22)
   \<and> (\<exists>r. spawn_clients sample_colored [''alice@node1:2222'', ''node2''] Map.empty 22 True False
             Context_init = Inr r
        \<and> (let text = sample_colored (''('' @ ''node2'' @ '') '') ''white'' @ ''Loading ...'' @ [CHR 0x0A]
           in text \<noteq> []
              \<and> map_of (host_status (ctx_after r)) ''node2'' = Some text
              \<and> (''node2'', text) \<in> set (snapshot (host_status (ctx_after r)) None)))"
proof -
  have 1: "[''alice@node1:2222'', ''node2''] \<noteq> []" by simp
  have 2: "\<forall>h\<in>set [''alice@node1:2222'', ''node2'']. \<not> malformed h"
    by (simp add: malformed_iff)
  have 3: "''node2'' \<in> set [''alice@node1:2222'', ''node2'']" by simp
  have 4: "parse_host_string 22 ''node2'' = Inr (''netdb'', ''node2'', 22)"
    by (simp add: parse_host_string_def re_match_netloc_def match_host_port_def
          is_word_def is_alnum_underscore_def is_digit_def not_colon_def code_def)
  have 5: "\<not> malformed ''alice@node1:2222''" "\<not> malformed ''node2''"
    by (simp_all add: malformed_iff)
  from spawn_clients_placeholders [OF 1 2 3 4, of sample_colored Map.empty True False Context_init]
    1 3 4 5
  show ?thesis by blast
qed

subsection \<open>Store invariant\<close>

text \<open>
  Claim C10. Every write into the store stores a text that is not empty and ends in
  a newline: each supervisor step either leaves the context as it is or sets the
  entry of its host to such a text, and so does each placeholder write. Hence, from
  a store all of whose texts are such (the initial empty store is one), after
  \<^verbatim>\<open>spawn_clients\<close> and any interleaving of supervisor steps every text in the store
  is such, the renderer skips no entry of the unfiltered snapshot, and the host of
  every started supervisor has an entry in that snapshot.
\<close>

theorem writes_end_in_newline:
  assumes "store_ok (host_status ctx)"
    and "spawn_clients colored hosts exec_cmds default_port verify_host verbose ctx = Inr r"
  shows "(let d = host_status (fleet_steps colored (ctx_after r) steps)
          in store_ok d \<and> snapshot d None = d
             \<and> (\<forall>c\<in>set (started r).
                   \<exists>s. map_of d (c_hostname c) = Some s \<and> nl_terminated s
                      \<and> (c_hostname c, s) \<in> set (snapshot d None)))
         \<and> (\<forall>hostname p c ev p' c'.
               run_client_step colored hostname (p, c) ev = Some (p', c') \<longrightarrow>
                 c' = c \<or> (\<exists>v. nl_terminated v
                              \<and> c' = c\<lparr>host_status := setitem (host_status c) hostname v\<rparr>))
         \<and> (\<forall>hostname c. \<exists>v. nl_terminated v
               \<and> host_set_message colored c hostname ''Loading ...'' =
                   c\<lparr>host_status := setitem (host_status c) hostname v\<rparr>)"
proof -
  let ?d = "host_status (fleet_steps colored (ctx_after r) steps)"
  have ok: "store_ok ?d"
    by (rule store_ok_fleet_steps) (rule store_ok_spawn_clients [OF assms])
  have "\<exists>s. map_of ?d (c_hostname c) = Some s \<and> nl_terminated s
          \<and> (c_hostname c, s) \<in> set (snapshot ?d None)" if "c \<in> set (started r)" for c
    by (rule store_ok_entry [OF ok]) (rule keys_fleet_steps, rule has_key_spawn_clients [OF assms(2) that])
  with ok have 1: "(let d = ?d
          in store_ok d \<and> snapshot d None = d
             \<and> (\<forall>c\<in>set (started r).
                   \<exists>s. map_of d (c_hostname c) = Some s \<and> nl_terminated s
                      \<and> (c_hostname c, s) \<in> set (snapshot d None)))"
    by (simp add: Let_def snapshot_store_ok)
  have 2: "\<forall>hostname p c ev p' c'.
               run_client_step colored hostname (p, c) ev = Some (p', c') \<longrightarrow>
                 c' = c \<or> (\<exists>v. nl_terminated v
                              \<and> c' = c\<lparr>host_status := setitem (host_status c) hostname v\<rparr>)"
    using step_writes by blast
  have 3: "\<forall>hostname c. \<exists>v. nl_terminated v
               \<and> host_set_message colored c hostname ''Loading ...'' =
                   c\<lparr>host_status := setitem (host_status c) hostname v\<rparr>"
    by (simp add: host_set_message_write)
  from 1 2 3 show ?thesis by blast
qed

theorem writes_end_in_newline_witness:
  "store_ok (host_status Context_init)
   \<and> (\<exists>r. spawn_clients sample_colored [''alice@node1:2222'', ''node2''] Map.empty 22 True False
            Context_init = Inr r
        \<and> map c_hostname (started r) = [''node1'', ''node2'']
        \<and> (let d = host_status (fleet_steps sample_colored (ctx_after r)
                       [(''node2'', Connecting, Raised (Exn ''OSError'' ''refused'')),
                        (''node1'', Polling, Completed 0 ''gpu0'' [])])
           in store_ok d \<and> snapshot d None = d
              \<and> (\<exists>s. map_of d ''node2'' = Some s \<and> nl_terminated s
                    \<and> (''node2'', s) \<in> set (snapshot d None))))"
proof -
  have 1: "store_ok (host_status Context_init)"
    by (simp add: store_ok_def Context_init_def)
  have m: "[''alice@node1:2222'', ''node2''] \<noteq> []"
    "\<forall>h\<in>set [''alice@node1:2222'', ''node2'']. \<not> malformed h"
    by (simp_all add: malformed_iff)
  have p: "map (parse_host_string 22) [''alice@node1:2222'', ''node2''] =
     [Inr (''alice'', ''node1'', 2222), Inr (''netdb'', ''node2'', 22)]"
    by (simp add: parse_host_string_def re_match_netloc_def match_host_port_def
          is_word_def is_alnum_underscore_def is_digit_def not_colon_def code_def int_of_digits_def)
  obtain r ts where r: "spawn_clients sample_colored [''alice@node1:2222'', ''node2''] Map.empty 22 True False
            Context_init = Inr r"
    and ts: "map Inr ts = map (parse_host_string 22) [''alice@node1:2222'', ''node2'']"
    and "ctx_after r = foldl (\<lambda>c hostname. host_set_message sample_colored c hostname ''Loading ...'')
                        Context_init (map (\<lambda>(username, hostname, port). hostname) ts)"
    and st: "map c_hostname (started r) = map (\<lambda>(username, hostname, port). hostname) ts"
    by (rule spawn_clients_ctx_after [OF m])
  from ts p have "ts = [(''alice'', ''node1'', 2222), (''netdb'', ''node2'', 22)]"
    by auto
  with st have st': "map c_hostname (started r) = [''node1'', ''node2'']" by simp
  have "''node2'' \<in> set (map c_hostname (started r))" unfolding st' by simp
  then have "''node2'' \<in> c_hostname ` set (started r)" by (simp only: set_map)
  then obtain c where c: "c \<in> set (started r)" "c_hostname c = ''node2''" by auto
  define d where "d = host_status (fleet_steps sample_colored (ctx_after r)
                       [(''node2'', Connecting, Raised (Exn ''OSError'' ''refused'')),
                        (''node1'', Polling, Completed 0 ''gpu0'' [])])"
  from writes_end_in_newline [OF 1 r, of "[(''node2'', Connecting, Raised (Exn ''OSError'' ''refused'')),
                        (''node1'', Polling, Completed 0 ''gpu0'' [])]", folded d_def]
  have a: "store_ok d" "snapshot d None = d"
    and b: "\<forall>c\<in>set (started r).
                   \<exists>s. map_of d (c_hostname c) = Some s \<and> nl_terminated s
                      \<and> (c_hostname c, s) \<in> set (snapshot d None)"
    unfolding Let_def by blast+
  from b c(1) have "\<exists>s. map_of d (c_hostname c) = Some s \<and> nl_terminated s
                    \<and> (c_hostname c, s) \<in> set (snapshot d None)"
    by (rule bspec)
  then have "\<exists>s. map_of d ''node2'' = Some s \<and> nl_terminated s
                    \<and> (''node2'', s) \<in> set (snapshot d None)"
    by (simp only: c(2))
  with a have "(let d = d
           in store_ok d \<and> snapshot d None = d
              \<and> (\<exists>s. map_of d ''node2'' = Some s \<and> nl_terminated s
                    \<and> (''node2'', s) \<in> set (snapshot d None)))"
    unfolding Let_def by blast
  then have L: "(let d = host_status (fleet_steps sample_colored (ctx_after r)
                       [(''node2'', Connecting, Raised (Exn ''OSError'' ''refused'')),
                        (''node1'', Polling, Completed 0 ''gpu0'' [])])
           in store_ok d \<and> snapshot d None = d
              \<and> (\<exists>s. map_of d ''node2'' = Some s \<and> nl_terminated s
                    \<and> (''node2'', s) \<in> set (snapshot d None)))"
    unfolding d_def .
  show ?thesis
    by (rule conjI [OF 1], rule exI [of _ r], rule conjI [OF r], rule conjI [OF st'], rule L)
qed

subsection \<open>The supervisor\<close>

text \<open>
  Claim C1. When a connection attempt raises an exception, the supervisor goes to
  its backoff sleep with the entry of its host set to
  \<^verbatim>\<open>colored("(host) ", "white") + colored("<ErrorKind>: <message>", "red") + "\n"\<close>, so the
  message is in the store before the backoff sleep begins; that text contains
  \<^verbatim>\<open><ErrorKind>: <message>\<close> whenever \<^verbatim>\<open>colored\<close> keeps its text. After any number of
  failed attempts the supervisor is connecting again, with the message of the last
  failure in the store. Along any events without a cancellation the supervisor never
  reaches its terminal state.
\<close>

theorem run_client_retries_forever:
  "run_client_step colored hostname (Connecting, ctx) (Raised (Exn name msg)) =
     Some (Backoff, on_exception colored ctx hostname (Exn name msg))
   \<and> map_of (host_status (on_exception colored ctx hostname (Exn name msg))) hostname =
       Some (colored (''('' @ hostname @ '') '') ''white'' @ colored (name @ '': '' @ msg) ''red''
             @ [CHR 0x0A])
   \<and> (\<exists>ctx1. run_client colored hostname (Connecting, ctx)
                (failing_attempts (es @ [Exn name msg])) = Some (Connecting, ctx1)
         \<and> map_of (host_status ctx1) hostname =
             Some (colored (''('' @ hostname @ '') '') ''white''
                   @ colored (name @ '': '' @ msg) ''red'' @ [CHR 0x0A]))
   \<and> (Cancel \<notin> set evs \<and> p \<noteq> Cancelled
        \<and> run_client colored hostname (p, ctx) evs = Some (p', ctx') \<longrightarrow> p' \<noteq> Cancelled)
   \<and> ((\<forall>t c. sublist t (colored t c)) \<longrightarrow>
        sublist (name @ '': '' @ msg)
          (colored (''('' @ hostname @ '') '') ''white'' @ colored (name @ '': '' @ msg) ''red''
           @ [CHR 0x0A]))"
proof (intro conjI impI)
  show "\<exists>ctx1. run_client colored hostname (Connecting, ctx)
                (failing_attempts (es @ [Exn name msg])) = Some (Connecting, ctx1)
         \<and> map_of (host_status ctx1) hostname =
             Some (colored (''('' @ hostname @ '') '') ''white''
                   @ colored (name @ '': '' @ msg) ''red'' @ [CHR 0x0A])"
    by (simp add: run_client_failing_attempts map_of_on_exception)
next
  assume "Cancel \<notin> set evs \<and> p \<noteq> Cancelled
        \<and> run_client colored hostname (p, ctx) evs = Some (p', ctx')"
  then show "p' \<noteq> Cancelled" using run_not_cancelled by blast
next
  assume a: "\<forall>t c. sublist t (colored t c)"
  then have "sublist (name @ '': '' @ msg) (colored (name @ '': '' @ msg) ''red'')" by blast
  then show "sublist (name @ '': '' @ msg)
          (colored (''('' @ hostname @ '') '') ''white'' @ colored (name @ '': '' @ msg) ''red''
           @ [CHR 0x0A])"
    by (meson sublist_appendI sublist_order.order_trans)
qed (simp_all add: map_of_on_exception)

theorem run_client_retries_forever_witness:
  "Cancel \<notin> set [Raised (Exn ''OSError'' ''refused''), Woke]
   \<and> Connecting \<noteq> Cancelled
   \<and> run_client sample_colored ''n1'' (Connecting, Context_init)
        [Raised (Exn ''OSError'' ''refused''), Woke] =
       Some (Connecting, on_exception sample_colored Context_init ''n1'' (Exn ''OSError'' ''refused''))
   \<and> (\<forall>t c. sublist t (sample_colored t c))
   \<and> sublist (''OSError'' @ '': '' @ ''refused'')
        (sample_colored (''('' @ ''n1'' @ '') '') ''white''
         @ sample_colored (''OSError'' @ '': '' @ ''refused'') ''red'' @ [CHR 0x0A])"
proof -
  have 1: "Cancel \<notin> set [Raised (Exn ''OSError'' ''refused''), Woke]" by simp
  have 2: "Connecting \<noteq> Cancelled" by simp
  have 3: "run_client sample_colored ''n1'' (Connecting, Context_init)
        [Raised (Exn ''OSError'' ''refused''), Woke] =
       Some (Connecting, on_exception sample_colored Context_init ''n1'' (Exn ''OSError'' ''refused''))"
    by simp
  have 4: "\<forall>t c. sublist t (sample_colored t c)"
    by (intro allI) (rule sample_colored_sublist)
  note t = run_client_retries_forever [of sample_colored "''n1''" Context_init "''OSError''" "''refused''" "[]"
      "[Raised (Exn ''OSError'' ''refused''), Woke]" Connecting Connecting
      "on_exception sample_colored Context_init ''n1'' (Exn ''OSError'' ''refused'')"]
  have 5: "sublist (''OSError'' @ '': '' @ ''refused'')
        (sample_colored (''('' @ ''n1'' @ '') '') ''white''
         @ sample_colored (''OSError'' @ '': '' @ ''refused'') ''red'' @ [CHR 0x0A])"
    by (rule t [THEN conjunct2, THEN conjunct2, THEN conjunct2, THEN conjunct2, THEN mp, OF 4])
  show ?thesis
    by (rule conjI [OF 1], rule conjI [OF 2], rule conjI [OF 3], rule conjI [OF 4], rule 5)
qed

text \<open>
  Claim C3, as stated, fails: after a successful poll whose captured output is
  \<^verbatim>\<open>"GPU0\n"\<close> the snapshot returns \<^verbatim>\<open>"GPU0\n\n\n\n"\<close>, not the captured output.
\<close>

theorem successful_poll_exact_output_counterexample:
  "run_client_step sample_colored ''n1'' (Polling, Context_init)
       (Completed 0 (''GPU0'' @ [CHR 0x0A]) []) =
     Some (PollSleep,
           \<lparr>host_status = [(''n1'', ''GPU0'' @ [CHR 0x0A, CHR 0x0A, CHR 0x0A, CHR 0x0A])],
            interval = 5\<rparr>)
   \<and> fst (render_gpustat_body (\<lambda>body full. body) ''ansi'' False None
            \<lparr>host_status = [(''n1'', ''GPU0'' @ [CHR 0x0A, CHR 0x0A, CHR 0x0A, CHR 0x0A])],
             interval = 5\<rparr>) =
       Inr (''GPU0'' @ [CHR 0x0A, CHR 0x0A, CHR 0x0A, CHR 0x0A])
   \<and> ''GPU0'' @ [CHR 0x0A, CHR 0x0A, CHR 0x0A, CHR 0x0A] \<noteq> ''GPU0'' @ [CHR 0x0A]"
  by (simp add: on_result_def strip_def isspace_def code_def setitem_def Context_init_def
        render_gpustat_body_def)

text \<open>
  Claim C3, amended. After a successful poll (exit status 0) for a host, its entry is
  the captured output with the whitespace at both ends removed and four newlines
  appended, and a snapshot filtered to that host returns exactly this text. Any
  later write for the host, of a result or of a failure, sets the entry to a text
  that depends on that write alone, and the store keeps one entry for each host.
\<close>

theorem successful_poll_stored_stripped:
  "run_client_step colored hostname (Polling, ctx) (Completed 0 stdout stderr) =
     Some (PollSleep, on_result colored ctx hostname 0 stdout stderr)
   \<and> map_of (host_status (on_result colored ctx hostname 0 stdout stderr)) hostname =
       Some (strip stdout @ [CHR 0x0A, CHR 0x0A, CHR 0x0A, CHR 0x0A])
   \<and> (distinct (map fst (host_status ctx)) \<longrightarrow>
        fst (render_gpustat_body convert ''ansi'' full_html (Some [hostname])
               (on_result colored ctx hostname 0 stdout stderr)) =
          Inr (strip stdout @ [CHR 0x0A, CHR 0x0A, CHR 0x0A, CHR 0x0A])
        \<and> distinct (map fst (host_status (on_result colored ctx hostname exit_status out err)))
        \<and> distinct (map fst (host_status (on_exception colored ctx hostname (Exn name msg)))))
   \<and> map_of (host_status (on_result colored ctx hostname exit_status out err)) hostname =
       Some (if exit_status \<noteq> 0
             then colored (''('' @ hostname @ '') '') ''white''
                  @ colored (''[Error '' @ str_int exit_status @ ''] ''
                             @ (case split (CHR 0x0A) err of [] \<Rightarrow> [] | l # _ \<Rightarrow> l)) ''red''
                  @ [CHR 0x0A]
             else strip out @ [CHR 0x0A, CHR 0x0A, CHR 0x0A, CHR 0x0A])
   \<and> map_of (host_status (on_exception colored ctx hostname (Exn name msg))) hostname =
       Some (colored (''('' @ hostname @ '') '') ''white'' @ colored (name @ '': '' @ msg) ''red''
             @ [CHR 0x0A])"
proof (intro conjI impI)
  assume d: "distinct (map fst (host_status ctx))"
  show "fst (render_gpustat_body convert ''ansi'' full_html (Some [hostname])
               (on_result colored ctx hostname 0 stdout stderr)) =
          Inr (strip stdout @ [CHR 0x0A, CHR 0x0A, CHR 0x0A, CHR 0x0A])"
    by (simp add: render_gpustat_body_def render_loop_snapshot on_result_def snapshot_single [OF d])
  show "distinct (map fst (host_status (on_result colored ctx hostname exit_status out err)))"
    using d by (simp add: on_result_def host_set_message_def Let_def distinct_setitem)
  show "distinct (map fst (host_status (on_exception colored ctx hostname (Exn name msg))))"
    using d by (simp add: on_exception_def host_set_message_def distinct_setitem)
next
  show "map_of (host_status (on_result colored ctx hostname 0 stdout stderr)) hostname =
       Some (strip stdout @ [CHR 0x0A, CHR 0x0A, CHR 0x0A, CHR 0x0A])"
    by (simp add: map_of_on_result)
qed (simp_all add: map_of_on_result map_of_on_exception)

theorem successful_poll_stored_stripped_witness:
  "distinct (map fst (host_status \<lparr>host_status = [(''n1'', ''old'')], interval = 5\<rparr>))
   \<and> fst (render_gpustat_body (\<lambda>body full. body) ''ansi'' False (Some [''n1''])
            (on_result sample_colored \<lparr>host_status = [(''n1'', ''old'')], interval = 5\<rparr>
               ''n1'' 0 ('' GPU'' @ [CHR 0x85]) [])) =
       Inr (strip ('' GPU'' @ [CHR 0x85]) @ [CHR 0x0A, CHR 0x0A, CHR 0x0A, CHR 0x0A])
   \<and> strip ('' GPU'' @ [CHR 0x85]) = ''GPU''
   \<and> strip ('' GPU0 '' @ [CHR 0xA0, CHR 0x0A]) = ''GPU0''"
proof -
  have d: "distinct (map fst (host_status \<lparr>host_status = [(''n1'', ''old'')], interval = 5\<rparr>))"
    by simp
  have s1: "strip ('' GPU'' @ [CHR 0x85]) = ''GPU''"
    by (simp add: strip_def isspace_def code_def)
  have s2: "strip ('' GPU0 '' @ [CHR 0xA0, CHR 0x0A]) = ''GPU0''"
    by (simp add: strip_def isspace_def code_def)
  note t = successful_poll_stored_stripped
    [of sample_colored "''n1''" "\<lparr>host_status = [(''n1'', ''old'')], interval = 5\<rparr>"
        "'' GPU'' @ [CHR 0x85]" "[]" "\<lambda>body full. body" False 0 "[]" "[]" "[]" "[]"]
  show ?thesis
    by (rule conjI [OF d],
        rule conjI [OF t [THEN conjunct2, THEN conjunct2, THEN conjunct1, THEN mp, OF d, THEN conjunct1]],
        rule conjI [OF s1], rule s2)
qed

subsection \<open>The host filter of a request\<close>

text \<open>
  Claim C9, as stated, fails: the value \<^verbatim>\<open>"  "\<close> of \<^verbatim>\<open>nodes\<close> is parsed to the
  filter \<^verbatim>\<open>[""]\<close>, not to no filter, and the response for a store with one host is
  empty, where the response without \<^verbatim>\<open>nodes\<close> has that host.
\<close>

theorem whitespace_filter_counterexample:
  "parse_querystring_list (Some ''  '') = Some [[]]
   \<and> fst (make_static_handler (\<lambda>body full. body) ''ansi'' [''nodes'' \<mapsto> ''  '']
            \<lparr>host_status = [(''node1'', ''x'')], interval = 5\<rparr>) = Inr []
   \<and> fst (make_static_handler (\<lambda>body full. body) ''ansi'' Map.empty
            \<lparr>host_status = [(''node1'', ''x'')], interval = 5\<rparr>) = Inr ''x''"
  by (simp add: parse_querystring_list_def strip_def isspace_def code_def
        make_static_handler_def render_gpustat_body_def)

text \<open>
  Claim C9, amended. A \<^verbatim>\<open>nodes\<close> value that is absent or empty is parsed to no
  filter, and the response of the HTTP handler and of the websocket handler then
  includes every host with a text. Every other value, one of whitespace only
  included, is stripped of the whitespace at its two ends as a whole and then split
  at the commas, with no trimming around the single names; a value of whitespace only
  gives the filter \<^verbatim>\<open>[""]\<close>, and the response is empty unless a host has the empty
  name.
\<close>

theorem parse_querystring_list_filter:
  "parse_querystring_list None = None
   \<and> parse_querystring_list (Some []) = None
   \<and> (v \<noteq> [] \<longrightarrow> parse_querystring_list (Some v) = Some (split CHR '','' (strip v)))
   \<and> (v \<noteq> [] \<and> list_all isspace v \<longrightarrow> parse_querystring_list (Some v) = Some [[]])
   \<and> (query ''nodes'' = None \<or> query ''nodes'' = Some [] \<longrightarrow>
        fst (make_static_handler convert ''ansi'' query ctx) =
          Inr (concat (map snd (snapshot (host_status ctx) None))))
   \<and> (nodes_value = None \<or> nodes_value = Some [] \<longrightarrow>
        fst (handle_websocketmessage convert nodes_value ctx) =
          Inr (convert (concat (map snd (snapshot (host_status ctx) None))) False))
   \<and> (w \<noteq> [] \<and> list_all isspace w \<and> query ''nodes'' = Some w \<and> \<not> has_key (host_status ctx) [] \<longrightarrow>
        fst (make_static_handler convert ''ansi'' query ctx) = Inr [])"
proof (intro conjI impI)
  assume "v \<noteq> [] \<and> list_all isspace v"
  then show "parse_querystring_list (Some v) = Some [[]]"
    by (simp add: parse_querystring_list_def strip_all_space)
next
  assume "query ''nodes'' = None \<or> query ''nodes'' = Some []"
  then have "parse_querystring_list (query ''nodes'') = None"
    by (auto simp: parse_querystring_list_def)
  then show "fst (make_static_handler convert ''ansi'' query ctx) =
          Inr (concat (map snd (snapshot (host_status ctx) None)))"
    by (simp add: make_static_handler_def Let_def render_gpustat_body_def render_loop_snapshot)
next
  assume "nodes_value = None \<or> nodes_value = Some []"
  then have "parse_querystring_list nodes_value = None"
    by (auto simp: parse_querystring_list_def)
  then show "fst (handle_websocketmessage convert nodes_value ctx) =
          Inr (convert (concat (map snd (snapshot (host_status ctx) None))) False)"
    by (simp add: handle_websocketmessage_def render_gpustat_body_def render_loop_snapshot)
next
  assume a: "w \<noteq> [] \<and> list_all isspace w \<and> query ''nodes'' = Some w \<and> \<not> has_key (host_status ctx) []"
  then have "parse_querystring_list (query ''nodes'') = Some [[]]"
    by (simp add: parse_querystring_list_def strip_all_space)
  with a show "fst (make_static_handler convert ''ansi'' query ctx) = Inr []"
    by (simp add: make_static_handler_def Let_def render_gpustat_body_def render_loop_snapshot
          snapshot_empty_name)
qed (simp_all add: parse_querystring_list_def)

theorem parse_querystring_list_filter_witness:
  "'' a, b ,c '' \<noteq> []
   \<and> parse_querystring_list (Some '' a, b ,c '') = Some [''a'', '' b '', ''c'']
   \<and> ''  '' \<noteq> [] \<and> list_all isspace ''  ''
   \<and> parse_querystring_list (Some ''  '') = Some [[]]
   \<and> [CHR 0xA0] \<noteq> [] \<and> list_all isspace [CHR 0xA0]
   \<and> parse_querystring_list (Some [CHR 0xA0]) = Some [[]]"
proof -
  have 1: "'' a, b ,c '' \<noteq> []" by simp
  have 2: "''  '' \<noteq> [] \<and> list_all isspace ''  ''" by (simp add: isspace_def code_def)
  have 5: "[CHR 0xA0] \<noteq> [] \<and> list_all isspace [CHR 0xA0]" by (simp add: isspace_def code_def)
  have s: "split CHR '','' (strip '' a, b ,c '') = [''a'', '' b '', ''c'']"
    by (simp add: strip_def isspace_def code_def)
  note t1 = parse_querystring_list_filter [of "'' a, b ,c ''" Map.empty "\<lambda>body full. body" Context_init None "[]"]
  note t2 = parse_querystring_list_filter [of "''  ''" Map.empty "\<lambda>body full. body" Context_init None "[]"]
  note t3 = parse_querystring_list_filter [of "[CHR 0xA0]" Map.empty "\<lambda>body full. body" Context_init None "[]"]
  have 3: "parse_querystring_list (Some '' a, b ,c '') = Some [''a'', '' b '', ''c'']"
    using t1 [THEN conjunct2, THEN conjunct2, THEN conjunct1, THEN mp, OF 1] s by simp
  have 4: "parse_querystring_list (Some ''  '') = Some [[]]"
    by (rule t2 [THEN conjunct2, THEN conjunct2, THEN conjunct2, THEN conjunct1, THEN mp, OF 2])
  have 6: "parse_querystring_list (Some [CHR 0xA0]) = Some [[]]"
    by (rule t3 [THEN conjunct2, THEN conjunct2, THEN conjunct2, THEN conjunct1, THEN mp, OF 5])
  show ?thesis
    by (rule conjI [OF 1], rule conjI [OF 3], rule conjI [OF 2 [THEN conjunct1]],
        rule conjI [OF 2 [THEN conjunct2]], rule conjI [OF 4], rule conjI [OF 5 [THEN conjunct1]],
        rule conjI [OF 5 [THEN conjunct2]], rule 6)
qed

end
